theory Spec2Isabelle
  imports Main "HOL-Library.AList"
begin

section \<open>Shared vocabulary\<close>

text \<open>
  A \<^verbatim>\<open>*sql.Stmt\<close> is a pointer: \<open>None\<close> is Go's \<^verbatim>\<open>nil\<close>, \<open>Some h\<close> the
  prepared statement with handle \<open>h\<close>.
\<close>

type_synonym stmt = "nat option"

text \<open>
  Go's \<^verbatim>\<open>error\<close> values that occur in the two packages.  \<open>External\<close> stands for an
  error produced by a collaborator (database driver, operating system, HTTP library);
  the wrapping constructors follow the \<^verbatim>\<open>fmt.Errorf(... %w ...)\<close> calls of the source.
  \<open>Panic\<close> is not a returned error but a \<^verbatim>\<open>panic\<close> with its message.
\<close>

datatype error =
    External string
  | UnsupportedNetwork string
  | NetworkEmpty
  | AddressEmpty
  | FailedToCreateHTTPServer error
  | FailedToListen string string error
  | ErrServerClosed
  | ContextCanceled
  | DeadlineExceeded
  | Panic string

section \<open>internal/todo/stmtcache.go\<close>

subsection \<open>The database as seen from the cache\<close>

text \<open>
  The cache talks to the outside through two calls only: \<^verbatim>\<open>preparer.PrepareContext\<close> and
  \<^verbatim>\<open>stmt.Close\<close>.  The \<open>world\<close> keeps the history of both, in call order; the teardown
  history also keeps what each \<^verbatim>\<open>Close\<close> returned.
\<close>

record world =
  prepare_calls :: "string list"
  close_calls :: "(nat \<times> error option) list"

text \<open>
  The \<^verbatim>\<open>preparerContext\<close> interface: the answer to a query may depend on everything that
  happened before (a database that is down for a while, handles that are never reused).
\<close>

type_synonym preparerContext = "world \<Rightarrow> string \<Rightarrow> stmt \<times> error option"


subsection \<open>sync.RWMutex\<close>

record rwmutex =
  readers :: nat
  writer :: bool

definition unlocked :: rwmutex where
  "unlocked = \<lparr>readers = 0, writer = False\<rparr>"

text \<open>\<open>None\<close>: the caller has to wait.\<close>

definition RLock :: "rwmutex \<Rightarrow> rwmutex option" where
  "RLock l = (if writer l then None else Some (l\<lparr>readers := Suc (readers l)\<rparr>))"

definition RUnlock :: "rwmutex \<Rightarrow> rwmutex" where
  "RUnlock l = l\<lparr>readers := readers l - 1\<rparr>"

definition Lock :: "rwmutex \<Rightarrow> rwmutex option" where
  "Lock l = (if writer l \<or> 0 < readers l then None else Some (l\<lparr>writer := True\<rparr>))"

definition Unlock :: "rwmutex \<Rightarrow> rwmutex" where
  "Unlock l = l\<lparr>writer := False\<rparr>"

subsection \<open>stmtCache\<close>

text \<open>
  \<^verbatim>\<open>statements map[string]*sql.Stmt\<close> is an association list with \<open>map_of\<close> as lookup,
  \<open>AList.update\<close> as assignment and \<open>AList.delete\<close> as \<^verbatim>\<open>delete\<close>; the order of the
  list is the order in which \<^verbatim>\<open>range\<close> happens to visit the map.
\<close>

record stmtCache =
  lock :: rwmutex
  statements :: "(string \<times> stmt) list"
  preparer :: preparerContext

definition newStmtCache :: "preparerContext \<Rightarrow> stmtCache" where
  "newStmtCache p = \<lparr>lock = unlocked, statements = [], preparer = p\<rparr>"



text \<open>
  \<^verbatim>\<open>PrepareContext\<close> run by one caller from start to end, nobody else touching the cache
  in between.  The result is the pair the Go function returns, the cache and the world
  after the call; \<open>None\<close> when a lock is not free.
\<close>

definition PrepareContext ::
  "stmtCache \<Rightarrow> world \<Rightarrow> string \<Rightarrow> ((stmt \<times> error option) \<times> stmtCache \<times> world) option" where
  "PrepareContext c w query =
     (case RLock (lock c) of
        None \<Rightarrow> None
      | Some l1 \<Rightarrow>
          (let found = map_of (statements c) query;
               c1 = c\<lparr>lock := RUnlock l1\<rparr>
           in case found of
                Some s \<Rightarrow> Some ((s, None), c1, w)
              | None \<Rightarrow>
                  (case Lock (lock c1) of
                     None \<Rightarrow> None
                   | Some l2 \<Rightarrow>
                       (let (s, err) = preparer c1 w query;
                            w' = w\<lparr>prepare_calls := prepare_calls w @ [query]\<rparr>;
                            sts = (if err = None then AList.update query s (statements c1)
                                   else statements c1)
                        in Some ((s, err), c1\<lparr>lock := Unlock l2, statements := sts\<rparr>, w')))))"

subsection \<open>PrepareContext, statement by statement\<close>

text \<open>
  Several goroutines inside \<^verbatim>\<open>PrepareContext\<close> at once: every caller has its query and a
  program counter, and one step runs one statement of one caller.  The counters follow
  the lines of the source.
\<close>

datatype pc =
    AtRLock
  | AtLookup
  | AtRUnlock "stmt option"
  | AtLock
  | AtPrepare
  | AtStore stmt "error option"
  | AtUnlock stmt "error option"
  | Returned stmt "error option"

record caller =
  query :: string
  at :: pc

record system =
  cache :: stmtCache
  db :: world
  callers :: "caller list"

text \<open>One statement of a caller; \<open>None\<close> when it waits for a lock or has returned.\<close>

fun caller_step :: "caller \<Rightarrow> stmtCache \<Rightarrow> world \<Rightarrow> (caller \<times> stmtCache \<times> world) option" where
  "caller_step t c w =
     (case at t of
        AtRLock \<Rightarrow>
          (case RLock (lock c) of
             None \<Rightarrow> None
           | Some l \<Rightarrow> Some (t\<lparr>at := AtLookup\<rparr>, c\<lparr>lock := l\<rparr>, w))
      | AtLookup \<Rightarrow> Some (t\<lparr>at := AtRUnlock (map_of (statements c) (query t))\<rparr>, c, w)
      | AtRUnlock found \<Rightarrow>
          Some (t\<lparr>at := (case found of Some s \<Rightarrow> Returned s None | None \<Rightarrow> AtLock)\<rparr>,
                c\<lparr>lock := RUnlock (lock c)\<rparr>, w)
      | AtLock \<Rightarrow>
          (case Lock (lock c) of
             None \<Rightarrow> None
           | Some l \<Rightarrow> Some (t\<lparr>at := AtPrepare\<rparr>, c\<lparr>lock := l\<rparr>, w))
      | AtPrepare \<Rightarrow>
          (let (s, err) = preparer c w (query t)
           in Some (t\<lparr>at := AtStore s err\<rparr>, c,
                    w\<lparr>prepare_calls := prepare_calls w @ [query t]\<rparr>))
      | AtStore s err \<Rightarrow>
          Some (t\<lparr>at := AtUnlock s err\<rparr>,
                (if err = None then c\<lparr>statements := AList.update (query t) s (statements c)\<rparr>
                 else c), w)
      | AtUnlock s err \<Rightarrow> Some (t\<lparr>at := Returned s err\<rparr>, c\<lparr>lock := Unlock (lock c)\<rparr>, w)
      | Returned s err \<Rightarrow> None)"

text \<open>The scheduler picks caller \<open>i\<close>; a pick that cannot move leaves the system as it is.\<close>

definition sys_step :: "nat \<Rightarrow> system \<Rightarrow> system" where
  "sys_step i sy =
     (if i < length (callers sy) then
        (case caller_step (callers sy ! i) (cache sy) (db sy) of
           None \<Rightarrow> sy
         | Some (t, c, w) \<Rightarrow> \<lparr>cache = c, db = w, callers = (callers sy)[i := t]\<rparr>)
      else sy)"

fun run :: "nat list \<Rightarrow> system \<Rightarrow> system" where
  "run [] sy = sy"
| "run (i # sched) sy = run sched (sys_step i sy)"

definition start :: "stmtCache \<Rightarrow> world \<Rightarrow> string list \<Rightarrow> system" where
  "start c w qs = \<lparr>cache = c, db = w, callers = map (\<lambda>q. \<lparr>query = q, at = AtRLock\<rparr>) qs\<rparr>"

text \<open>A database that never fails and hands out a fresh handle at every call.\<close>

definition fresh_preparer :: preparerContext where
  "fresh_preparer w q = (Some (length (prepare_calls w)), None)"

text \<open>A database that fails the first call and works from then on.\<close>

definition flaky_preparer :: preparerContext where
  "flaky_preparer w q =
     (if prepare_calls w = [] then (None, Some (External ''database is locked''))
      else (Some (length (prepare_calls w)), None))"

definition world0 :: world where
  "world0 = \<lparr>prepare_calls = [], close_calls = []\<rparr>"


text \<open>
  A caller for \<open>q\<close> on the short path while \<open>q\<close> is cached with \<open>s\<close>: it has not looked
  the key up yet, or it has found \<open>s\<close>, or it is back with \<open>s\<close>.
\<close>

definition on_short_path :: "string \<Rightarrow> stmt \<Rightarrow> caller \<Rightarrow> bool" where
  "on_short_path q s t =
     (query t = q \<longrightarrow>
        (case at t of
           AtRLock \<Rightarrow> True
         | AtLookup \<Rightarrow> True
         | AtRUnlock found \<Rightarrow> found = Some s
         | Returned s' err \<Rightarrow> s' = s \<and> err = None
         | _ \<Rightarrow> False))"

section \<open>internal/httpserver\<close>

subsection \<open>Configuration and options\<close>

record Config =
  Address :: string

record serverConfig =
  network :: string
  address :: string

text \<open>
  The two implementations of the \<^verbatim>\<open>Option\<close> interface: the closure that
  \<^verbatim>\<open>WithServerAddress\<close> returns, and \<^verbatim>\<open>serverOptions\<close>, a slice of options.  The method
  \<^verbatim>\<open>apply\<close> is unexported, so there are no others.
\<close>

datatype Option =
    WithServerAddress string string
  | serverOptions "Option list"

text \<open>
  \<^verbatim>\<open>apply\<close> writes through a pointer: the configuration comes back next to the error,
  as far as it was written.
\<close>

fun apply_Option :: "Option \<Rightarrow> serverConfig \<Rightarrow> error option \<times> serverConfig"
  and apply_serverOptions :: "Option list \<Rightarrow> serverConfig \<Rightarrow> error option \<times> serverConfig" where
  "apply_Option (WithServerAddress net addr) c =
     (if net = ''udp'' \<or> net = ''unixgram'' then (Some (UnsupportedNetwork net), c)
      else if net = [] then (Some NetworkEmpty, c)
      else if addr = [] then (Some AddressEmpty, c)
      else (None, c\<lparr>network := net, address := addr\<rparr>))"
| "apply_Option (serverOptions os) c = apply_serverOptions os c"
| "apply_serverOptions [] c = (None, c)"
| "apply_serverOptions (opt # os) c =
     (case apply_Option opt c of
        (Some err, c') \<Rightarrow> (Some err, c')
      | (None, c') \<Rightarrow> apply_serverOptions os c')"

definition WithConfig :: "Config \<Rightarrow> Option" where
  "WithConfig c = serverOptions [WithServerAddress ''tcp'' (Address c)]"

subsection \<open>Collaborators\<close>

text \<open>
  A \<^verbatim>\<open>TwirpServer\<close> is an \<^verbatim>\<open>http.Handler\<close> with a path prefix; \<open>'h\<close> is the type of
  handlers.
\<close>

record 'h TwirpServer =
  PathPrefix :: string
  ServeHTTP :: 'h

text \<open>
  \<^verbatim>\<open>reflection.Server\<close> of package twirp-reflection: a Twirp service of its own that is
  told of services through \<^verbatim>\<open>RegisterService\<close>.  The model keeps the calls it received.
\<close>

record 'h reflection_Server =
  self :: "'h TwirpServer"
  registered :: "'h TwirpServer list"

text \<open>
  \<^verbatim>\<open>alice.Chain\<close> of package github.com/justinas/alice v1.2.0 (a dependency, not part of
  this repository), after its documented contract: \<^verbatim>\<open>Append\<close> adds constructors as the
  last ones in the request flow, and \<^verbatim>\<open>New(m1, m2, m3).Then(h)\<close> is \<^verbatim>\<open>m1(m2(m3(h)))\<close>;
  \<^verbatim>\<open>Then\<close> walks the constructors from the last to the first.
\<close>

type_synonym 'h Chain = "('h \<Rightarrow> 'h) list"

definition Append :: "'h Chain \<Rightarrow> ('h \<Rightarrow> 'h) list \<Rightarrow> 'h Chain" where
  "Append c constructors = c @ constructors"

definition Then :: "'h Chain \<Rightarrow> 'h \<Rightarrow> 'h" where
  "Then c h = fold (\<lambda>m h'. m h') (rev c) h"

text \<open>\<^verbatim>\<open>net.Addr\<close> and \<^verbatim>\<open>net.Listener\<close>.\<close>

record Addr =
  Network :: string
  String :: string

datatype Listener = Listener (Addr: Addr)

text \<open>
  What \<^verbatim>\<open>New\<close> takes from other packages: the reflection server that
  \<^verbatim>\<open>reflection.NewServer\<close> returns and the two built-in middlewares.
\<close>

record 'h packages =
  reflection_NewServer :: "'h TwirpServer"
  h2c_NewHandler :: "'h \<Rightarrow> 'h"
  GzipHandler :: "'h \<Rightarrow> 'h"

subsection \<open>Server\<close>

text \<open>
  \<open>listener\<close> is the \<^verbatim>\<open>atomic.Value\<close>: \<open>None\<close> until something is stored.  \<open>mux\<close> is the
  \<^verbatim>\<open>http.ServeMux\<close>, kept as the patterns and handlers it holds, in the order in which
  they were registered.
\<close>

record 'h Server =
  chain :: "'h Chain"
  listener :: "Listener option"
  mux :: "(string \<times> 'h) list"
  reflection :: "'h reflection_Server"
  config :: serverConfig

text \<open>
  \<^verbatim>\<open>(*http.ServeMux).Handle\<close> of the standard library (the module is at \<^verbatim>\<open>go 1.18\<close>), after
  its documented contract: it panics on an empty pattern, on a \<^verbatim>\<open>nil\<close> handler and on a
  pattern that is registered already, in this order, and adds the entry otherwise.  An
  \<^verbatim>\<open>http.Handler\<close> is an interface value, \<open>None\<close> is \<^verbatim>\<open>nil\<close>.
\<close>

definition mux_Handle :: "string \<Rightarrow> 'h option \<Rightarrow> (string \<times> 'h) list \<Rightarrow> error + (string \<times> 'h) list" where
  "mux_Handle pattern handler m =
     (if pattern = [] then Inl (Panic ''http: invalid pattern'')
      else case handler of
             None \<Rightarrow> Inl (Panic ''http: nil handler'')
           | Some h \<Rightarrow>
               if pattern \<in> fst ` set m
               then Inl (Panic (''http: multiple registrations for '' @ pattern))
               else Inr (m @ [(pattern, h)]))"

text \<open>
  The set-up methods return nothing; the model returns the panic, if there is one, and
  the server after the call.
\<close>

definition Handle :: "string \<Rightarrow> 'h option \<Rightarrow> 'h Server \<Rightarrow> error option \<times> 'h Server" where
  "Handle pattern handler s =
     (case mux_Handle pattern handler (mux s) of
        Inl p \<Rightarrow> (Some p, s)
      | Inr m \<Rightarrow> (None, s\<lparr>mux := m\<rparr>))"

definition AddMiddleware :: "('h \<Rightarrow> 'h) \<Rightarrow> 'h Server \<Rightarrow> 'h Server" where
  "AddMiddleware middleware s = s\<lparr>chain := Append (chain s) [middleware]\<rparr>"

text \<open>
  \<^verbatim>\<open>RegisterService\<close>: line 773, then line 774.  A \<^verbatim>\<open>nil\<close> service panics in
  \<^verbatim>\<open>t.PathPrefix()\<close>; a panic of the mux comes before the reflection server is told.
\<close>

definition RegisterService :: "'h TwirpServer option \<Rightarrow> 'h Server \<Rightarrow> error option \<times> 'h Server" where
  "RegisterService t s =
     (case t of
        None \<Rightarrow> (Some (Panic ''invalid memory address or nil pointer dereference''), s)
      | Some ts \<Rightarrow>
          (case mux_Handle (PathPrefix ts) (Some (ServeHTTP ts)) (mux s) of
             Inl p \<Rightarrow> (Some p, s)
           | Inr m \<Rightarrow>
               (None, s\<lparr>mux := m,
                        reflection := (reflection s)\<lparr>registered := registered (reflection s) @ [ts]\<rparr>\<rparr>)))"

text \<open>The loop of \<^verbatim>\<open>New\<close> over its options.\<close>

fun New_options :: "Option list \<Rightarrow> serverConfig \<Rightarrow> error + serverConfig" where
  "New_options [] cfg = Inr cfg"
| "New_options (opt # options) cfg =
     (case apply_Option opt cfg of
        (Some err, cfg') \<Rightarrow> Inl (FailedToCreateHTTPServer err)
      | (None, cfg') \<Rightarrow> New_options options cfg')"

definition New :: "'h packages \<Rightarrow> Option list \<Rightarrow> error + 'h Server" where
  "New pk options =
     (case New_options options \<lparr>network = ''tcp'', address = ''127.0.0.1:0''\<rparr> of
        Inl err \<Rightarrow> Inl err
      | Inr cfg \<Rightarrow>
          (let s = \<lparr>chain = [], listener = None, mux = [],
                    reflection = \<lparr>self = reflection_NewServer pk, registered = []\<rparr>,
                    config = cfg\<rparr>
           in case RegisterService (Some (self (reflection s))) s of
                (Some p, s) \<Rightarrow> Inl p
              | (None, s) \<Rightarrow>
                  (let s = AddMiddleware (h2c_NewHandler pk) s;
                       s = AddMiddleware (GzipHandler pk) s
                   in Inr s)))"

definition Build :: "'h packages \<Rightarrow> Config \<Rightarrow> error + 'h Server" where
  "Build pk c = New pk [WithConfig c]"

subsection \<open>Run\<close>

text \<open>
  What happens outside during one \<^verbatim>\<open>Run\<close>: the answer of \<^verbatim>\<open>net.Listen\<close>, whether the
  context passed in is ever done, what \<^verbatim>\<open>svr.Serve\<close> and \<^verbatim>\<open>svr.Shutdown\<close> return, and
  which of the two goroutines of the group comes back first.
\<close>

record outside =
  net_Listen :: "string \<Rightarrow> string \<Rightarrow> error + Listener"
  ctx_done :: bool
  Serve :: "error option"
  Shutdown :: "error option"
  serve_returns_first :: bool

datatype 'a outcome = Blocks | Returns 'a

text \<open>The handler of the \<^verbatim>\<open>http.Server\<close>; \<open>mux_handler\<close> is the mux as an \<^verbatim>\<open>http.Handler\<close>.\<close>

definition Run_Handler :: "((string \<times> 'h) list \<Rightarrow> 'h) \<Rightarrow> 'h Server \<Rightarrow> 'h" where
  "Run_Handler mux_handler s = Then (chain s) (mux_handler (mux s))"

text \<open>The first goroutine of the group.\<close>

definition serve_task :: "outside \<Rightarrow> error option" where
  "serve_task out =
     (case Serve out of
        Some err \<Rightarrow> (if err \<noteq> ErrServerClosed then Some err else None)
      | None \<Rightarrow> None)"

text \<open>The second one, once the context of the group is done.\<close>

definition shutdown_task :: "outside \<Rightarrow> error option" where
  "shutdown_task out = (let ignored = Shutdown out in None)"

text \<open>
  \<^verbatim>\<open>errgroup.Group.Wait\<close> of golang.org/x/sync: the first error that is not \<^verbatim>\<open>nil\<close>, in the
  order in which the goroutines came back.
\<close>

fun Wait :: "error option list \<Rightarrow> error option" where
  "Wait [] = None"
| "Wait (None # rs) = Wait rs"
| "Wait (Some err # rs) = Some err"

text \<open>
  \<^verbatim>\<open>Run\<close>: the server afterwards and what the call returns.  The context of the group is
  done when the context passed in is done or when a goroutine of the group has failed;
  until then the second goroutine waits, and \<^verbatim>\<open>Run\<close> with it.
\<close>

definition Run :: "outside \<Rightarrow> 'h Server \<Rightarrow> 'h Server \<times> error option outcome" where
  "Run out s =
     (case net_Listen out (network (config s)) (address (config s)) of
        Inl err \<Rightarrow>
          (s, Returns (Some (FailedToListen (network (config s)) (address (config s)) err)))
      | Inr l \<Rightarrow>
          (let s' = s\<lparr>listener := Some l\<rparr>
           in if ctx_done out \<or> serve_task out \<noteq> None
              then (s', Returns (Wait (if serve_returns_first out
                                       then [serve_task out, shutdown_task out]
                                       else [shutdown_task out, serve_task out])))
              else (s', Blocks)))"

subsection \<open>WaitForAddress\<close>

text \<open>
  What \<^verbatim>\<open>WaitForAddress\<close> meets while it loops: a \<^verbatim>\<open>select\<close> that takes the branch
  \<^verbatim>\<open>ctx.Done()\<close> (with the value of \<^verbatim>\<open>ctx.Err()\<close>), a \<^verbatim>\<open>select\<close> that takes the tick, and,
  between two of them, a \<^verbatim>\<open>Store\<close> into the listener slot by a \<^verbatim>\<open>Run\<close> in another
  goroutine.
\<close>

datatype event = CtxDone error | Tick | Store Listener

text \<open>The ticker of line 747, in nanoseconds as \<^verbatim>\<open>time.Duration\<close> counts.\<close>

definition Millisecond :: nat where
  "Millisecond = 1000000"

definition ticker_period :: nat where
  "ticker_period = Millisecond * 100"

text \<open>\<open>None\<close>: the events are used up and the loop is still waiting.\<close>

fun WaitForAddress :: "'h Server \<Rightarrow> event list \<Rightarrow> (Addr option \<times> error option) option" where
  "WaitForAddress s [] = None"
| "WaitForAddress s (CtxDone err # evs) = Some (None, Some err)"
| "WaitForAddress s (Tick # evs) =
     (case listener s of
        Some l \<Rightarrow> Some (Some (Addr l), None)
      | None \<Rightarrow> WaitForAddress s evs)"
| "WaitForAddress s (Store l # evs) = WaitForAddress (s\<lparr>listener := Some l\<rparr>) evs"

text \<open>The listener slot after the stores among the events.\<close>

fun after_events :: "'h Server \<Rightarrow> event list \<Rightarrow> 'h Server" where
  "after_events s [] = s"
| "after_events s (Store l # evs) = after_events (s\<lparr>listener := Some l\<rparr>) evs"
| "after_events s (ev # evs) = after_events s evs"

text \<open>
  The events on a clock.  Time counts in nanoseconds from the call of \<^verbatim>\<open>WaitForAddress\<close>.
  The ticker of line 747 fires at the multiples of \<open>ticker_period\<close>; \<open>done_at\<close> says when
  the context is done and with which \<^verbatim>\<open>ctx.Err()\<close>, \<open>stored_at\<close> when a \<^verbatim>\<open>Run\<close> stores its
  listener; \<open>tie_to_done\<close> is the choice of \<^verbatim>\<open>select\<close> when the context is done at the very
  instant of a tick.
\<close>

record timing =
  done_at :: "(nat \<times> error) option"
  stored_at :: "(nat \<times> Listener) option"
  tie_to_done :: bool

text \<open>
  The \<open>k\<close>-th \<^verbatim>\<open>select\<close> waits for the \<open>k\<close>-th tick: it takes \<^verbatim>\<open>ctx.Done()\<close> when the context
  is done before the tick.
\<close>

definition select_event :: "timing \<Rightarrow> nat \<Rightarrow> event" where
  "select_event tm k =
     (case done_at tm of
        None \<Rightarrow> Tick
      | Some (tc, err) \<Rightarrow>
          if tc < k * ticker_period \<or> (tc = k * ticker_period \<and> tie_to_done tm)
          then CtxDone err else Tick)"

text \<open>The store, if it falls between tick \<open>k - 1\<close> and tick \<open>k\<close>.\<close>

definition period_stores :: "timing \<Rightarrow> nat \<Rightarrow> event list" where
  "period_stores tm k =
     (case stored_at tm of
        None \<Rightarrow> []
      | Some (ts, l) \<Rightarrow>
          if (k = 1 \<or> (k - 1) * ticker_period < ts) \<and> ts \<le> k * ticker_period
          then [Store l] else [])"

text \<open>What \<^verbatim>\<open>WaitForAddress\<close> meets up to the \<open>n\<close>-th tick.\<close>

fun timeline :: "timing \<Rightarrow> nat \<Rightarrow> event list" where
  "timeline tm 0 = []"
| "timeline tm (Suc n) = timeline tm n @ period_stores tm (Suc n) @ [select_event tm (Suc n)]"

subsection \<open>Setting a server up\<close>

text \<open>
  The servers that \<^verbatim>\<open>New\<close> and the three set-up methods can produce, a call that panics
  included (a caller may recover from it).
\<close>

inductive reachable :: "'h packages \<Rightarrow> 'h Server \<Rightarrow> bool" for pk :: "'h packages" where
  reach_New: "New pk options = Inr s \<Longrightarrow> reachable pk s"
| reach_Handle: "reachable pk s \<Longrightarrow> reachable pk (snd (Handle pattern handler s))"
| reach_RegisterService: "reachable pk s \<Longrightarrow> reachable pk (snd (RegisterService t s))"
| reach_AddMiddleware: "reachable pk s \<Longrightarrow> reachable pk (AddMiddleware middleware s)"

subsection \<open>Rejected options\<close>

text \<open>
  An option that holds an address with an empty network, a network without connections
  or an empty address, at any depth.
\<close>

fun rejected :: "Option \<Rightarrow> bool" where
  "rejected (WithServerAddress net addr) =
     (net = [] \<or> net = ''udp'' \<or> net = ''unixgram'' \<or> addr = [])"
| "rejected (serverOptions os) = (\<exists>opt \<in> set os. rejected opt)"

subsection \<open>Handlers that leave a trace\<close>

text \<open>
  To see in which order a request meets the middlewares, a handler is the list of what
  happens to one request, and a middleware writes its name before and after it calls
  the next handler.
\<close>

definition around :: "string \<Rightarrow> string list \<Rightarrow> string list" where
  "around name next = (name @ '' in'') # next @ [name @ '' out'']"

definition trace_packages :: "string list packages" where
  "trace_packages =
     \<lparr>reflection_NewServer = \<lparr>PathPrefix = ''/twirp/reflection/'', ServeHTTP = [''reflection'']\<rparr>,
      h2c_NewHandler = around ''h2c'',
      GzipHandler = around ''gzip''\<rparr>"

text \<open>The server that \<^verbatim>\<open>New\<close> returns for these packages and no option.\<close>

definition trace_server :: "string list Server" where
  "trace_server =
     \<lparr>chain = [around ''h2c'', around ''gzip''],
      listener = None,
      mux = [(''/twirp/reflection/'', [''reflection''])],
      reflection = \<lparr>self = \<lparr>PathPrefix = ''/twirp/reflection/'', ServeHTTP = [''reflection'']\<rparr>,
                    registered = [\<lparr>PathPrefix = ''/twirp/reflection/'', ServeHTTP = [''reflection'']\<rparr>]\<rparr>,
      config = \<lparr>network = ''tcp'', address = ''127.0.0.1:0''\<rparr>\<rparr>"

text \<open>A listener on port 43210, and an outside world in which the port is taken.\<close>

definition listener_43210 :: Listener where
  "listener_43210 = Listener \<lparr>Network = ''tcp'', String = ''127.0.0.1:43210''\<rparr>"

definition port_taken :: outside where
  "port_taken =
     \<lparr>net_Listen = (\<lambda>net addr. Inl (External ''bind: address already in use'')),
      ctx_done = False, Serve = None, Shutdown = None, serve_returns_first = True\<rparr>"

text \<open>
  An outside world in which the context is cancelled, \<^verbatim>\<open>Serve\<close> comes back with
  \<^verbatim>\<open>http.ErrServerClosed\<close> and \<^verbatim>\<open>Shutdown\<close> runs out of time; and one in which \<^verbatim>\<open>Serve\<close>
  fails by itself.
\<close>

definition cancelled :: outside where
  "cancelled =
     \<lparr>net_Listen = (\<lambda>net addr. Inr listener_43210),
      ctx_done = True, Serve = Some ErrServerClosed, Shutdown = Some DeadlineExceeded,
      serve_returns_first = False\<rparr>"

definition accept_fails :: outside where
  "accept_fails =
     \<lparr>net_Listen = (\<lambda>net addr. Inr listener_43210),
      ctx_done = False, Serve = Some (External ''accept: too many open files''),
      Shutdown = None, serve_returns_first = True\<rparr>"

text \<open>
  Two clocks for \<^verbatim>\<open>WaitForAddress\<close>: a listener stored after 250ms and no cancellation, and
  a cancellation after 250ms and no listener.
\<close>

definition stored_after_250ms :: timing where
  "stored_after_250ms =
     \<lparr>done_at = None, stored_at = Some (250000000, listener_43210), tie_to_done = False\<rparr>"

definition cancelled_after_250ms :: timing where
  "cancelled_after_250ms =
     \<lparr>done_at = Some (250000000, ContextCanceled), stored_at = None, tie_to_done = False\<rparr>"

section \<open>Properties of the statement cache\<close>

lemma PrepareContext_hit:
  "\<not> writer (lock c) \<Longrightarrow> map_of (statements c) q = Some s \<Longrightarrow>
   PrepareContext c w q = Some ((s, None), c, w)"
  by (simp add: PrepareContext_def RLock_def RUnlock_def)

lemma PrepareContext_miss:
  assumes "lock c = unlocked" and "map_of (statements c) q = None"
  shows "PrepareContext c w q =
     Some (preparer c w q,
           (if snd (preparer c w q) = None
            then c\<lparr>statements := AList.update q (fst (preparer c w q)) (statements c)\<rparr> else c),
           w\<lparr>prepare_calls := prepare_calls w @ [q]\<rparr>)"
proof (cases "preparer c w q")
  case (Pair s err)
  have "c\<lparr>lock := \<lparr>readers = 0, writer = False\<rparr>\<rparr> = c"
    using assms(1) by (simp add: unlocked_def)
  with Pair assms show ?thesis
    by (simp add: PrepareContext_def RLock_def RUnlock_def Lock_def Unlock_def unlocked_def Let_def)
qed

lemma PrepareContext_keeps:
  "map_of (statements c) q = Some s \<Longrightarrow> PrepareContext c w q' = Some (r, c', w') \<Longrightarrow>
   map_of (statements c') q = Some s"
  by (auto simp: PrepareContext_def RLock_def RUnlock_def Lock_def Unlock_def update_conv' Let_def
      split: if_splits option.splits prod.splits)

lemma PrepareContext_waits:
  "(PrepareContext c w q = None) =
     (writer (lock c) \<or> (map_of (statements c) q = None \<and> 0 < readers (lock c)))"
  by (auto simp: PrepareContext_def RLock_def RUnlock_def Lock_def Unlock_def Let_def
      split: if_splits option.splits prod.splits)

subsection \<open>One caller: the steps add up to the call\<close>

lemma sys_step_single:
  "sys_step 0 \<lparr>cache = c, db = w, callers = [t]\<rparr> =
     (case caller_step t c w of
        None \<Rightarrow> \<lparr>cache = c, db = w, callers = [t]\<rparr>
      | Some (t', c', w') \<Rightarrow> \<lparr>cache = c', db = w', callers = [t']\<rparr>)"
  by (simp add: sys_step_def split: option.splits)

lemma run_single_hit:
  assumes "\<not> writer (lock c)" and "map_of (statements c) q = Some s"
  shows "run (replicate 7 0) (start c w [q]) =
     \<lparr>cache = c, db = w, callers = [\<lparr>query = q, at = Returned s None\<rparr>]\<rparr>"
  using assms
  by (simp add: start_def numeral_eq_Suc sys_step_single RLock_def RUnlock_def)

lemma run_single_miss:
  assumes "lock c = unlocked" and "map_of (statements c) q = None"
    and "preparer c w q = (s, err)"
  shows "run (replicate 7 0) (start c w [q]) =
     \<lparr>cache = (if err = None then c\<lparr>statements := AList.update q s (statements c)\<rparr> else c),
      db = w\<lparr>prepare_calls := prepare_calls w @ [q]\<rparr>,
      callers = [\<lparr>query = q, at = Returned s err\<rparr>]\<rparr>"
proof -
  have c: "c\<lparr>lock := \<lparr>readers = 0, writer = False\<rparr>\<rparr> = c"
    using assms(1) by (simp add: unlocked_def)
  show ?thesis
    using assms c
    by (simp add: start_def numeral_eq_Suc sys_step_single RLock_def RUnlock_def Lock_def
        Unlock_def unlocked_def)
qed

lemma run_single:
  assumes "lock c = unlocked" and "PrepareContext c w q = Some ((s, err), c', w')"
  shows "run (replicate 7 0) (start c w [q]) =
     \<lparr>cache = c', db = w', callers = [\<lparr>query = q, at = Returned s err\<rparr>]\<rparr>"
proof (cases "map_of (statements c) q")
  case None
  from assms(2) show ?thesis
    unfolding PrepareContext_miss[OF assms(1) None]
    using run_single_miss[OF assms(1) None, of w "fst (preparer c w q)" "snd (preparer c w q)"]
    by auto
next
  case (Some x)
  have nw: "\<not> writer (lock c)" using assms(1) by (simp add: unlocked_def)
  from assms(2) show ?thesis
    unfolding PrepareContext_hit[OF nw Some]
    using run_single_hit[OF nw Some, of w] by auto
qed

subsection \<open>Many callers: a cached key stays as it is\<close>

lemma caller_step_cached:
  assumes "caller_step t c w = Some (t', c', w')"
    and "map_of (statements c) q = Some s"
    and "on_short_path q s t"
  shows "map_of (statements c') q = Some s \<and> on_short_path q s t' \<and>
         filter ((=) q) (prepare_calls w') = filter ((=) q) (prepare_calls w)"
  using assms
  by (cases "at t")
     (auto simp: on_short_path_def RLock_def Lock_def update_conv' Let_def
           split: option.splits if_splits prod.splits)

lemma sys_step_cached:
  assumes "map_of (statements (cache sy)) q = Some s"
    and "\<forall>t \<in> set (callers sy). on_short_path q s t"
  shows "map_of (statements (cache (sys_step i sy))) q = Some s \<and>
         (\<forall>t \<in> set (callers (sys_step i sy)). on_short_path q s t) \<and>
         filter ((=) q) (prepare_calls (db (sys_step i sy))) = filter ((=) q) (prepare_calls (db sy))"
proof (cases "i < length (callers sy)")
  case False
  with assms show ?thesis by (simp add: sys_step_def)
next
  case True
  show ?thesis
  proof (cases "caller_step (callers sy ! i) (cache sy) (db sy)")
    case None
    with True assms show ?thesis by (simp add: sys_step_def)
  next
    case (Some r)
    obtain t' c' w' where r: "r = (t', c', w')" by (cases r)
    have "on_short_path q s (callers sy ! i)"
      using True assms(2) by simp
    from caller_step_cached[OF Some[unfolded r] assms(1) this]
    have *: "map_of (statements c') q = Some s" "on_short_path q s t'"
      "filter ((=) q) (prepare_calls w') = filter ((=) q) (prepare_calls (db sy))"
      by simp_all
    have "set ((callers sy)[i := t']) \<subseteq> insert t' (set (callers sy))"
      by (rule set_update_subset_insert)
    with * assms(2) True Some r show ?thesis
      by (auto simp: sys_step_def)
  qed
qed

lemma run_cached:
  "map_of (statements (cache sy)) q = Some s \<Longrightarrow>
   \<forall>t \<in> set (callers sy). on_short_path q s t \<Longrightarrow>
   map_of (statements (cache (run sched sy))) q = Some s \<and>
   (\<forall>t \<in> set (callers (run sched sy)). on_short_path q s t) \<and>
   filter ((=) q) (prepare_calls (db (run sched sy))) = filter ((=) q) (prepare_calls (db sy))"
proof (induction sched arbitrary: sy)
  case Nil
  then show ?case by simp
next
  case (Cons i sched)
  from sys_step_cached[OF Cons.prems, of i] Cons.IH[of "sys_step i sy"]
  show ?case by simp
qed

lemma start_on_short_path: "\<forall>t \<in> set (callers (start c w qs)). on_short_path q s t"
  by (auto simp: start_def on_short_path_def)

subsection \<open>Close\<close>







subsection \<open>Claims about the statement cache\<close>

text \<open>
  C3. When the preparer fails for a key that is not cached, \<^verbatim>\<open>PrepareContext\<close> returns the
  preparer's statement and error as they are, the cache is the same as before, and the
  call is in the history.  The next call for the same key asks the preparer again: it
  returns what the preparer answers now, and the history holds the key twice.
\<close>

theorem PrepareContext_failure_is_not_cached:
  assumes "lock c = unlocked"
    and "map_of (statements c) q = None"
    and "preparer c w q = (s, Some err)"
  shows "PrepareContext c w q = Some ((s, Some err), c, w\<lparr>prepare_calls := prepare_calls w @ [q]\<rparr>) \<and>
         PrepareContext c (w\<lparr>prepare_calls := prepare_calls w @ [q]\<rparr>) q =
           Some (preparer c (w\<lparr>prepare_calls := prepare_calls w @ [q]\<rparr>) q,
                 (if snd (preparer c (w\<lparr>prepare_calls := prepare_calls w @ [q]\<rparr>) q) = None
                  then c\<lparr>statements :=
                          AList.update q (fst (preparer c (w\<lparr>prepare_calls := prepare_calls w @ [q]\<rparr>) q))
                            (statements c)\<rparr>
                  else c),
                 w\<lparr>prepare_calls := prepare_calls w @ [q, q]\<rparr>)"
  using assms PrepareContext_miss[OF assms(1,2), of w]
    PrepareContext_miss[OF assms(1,2), of "w\<lparr>prepare_calls := prepare_calls w @ [q]\<rparr>"]
  by simp

text \<open>A database that fails once: the first call returns the error, the second a statement.\<close>

theorem PrepareContext_failure_is_not_cached_witness:
  "PrepareContext (newStmtCache flaky_preparer) world0 ''select 1'' =
     Some ((None, Some (External ''database is locked'')), newStmtCache flaky_preparer,
           \<lparr>prepare_calls = [''select 1''], close_calls = []\<rparr>) \<and>
   PrepareContext (newStmtCache flaky_preparer) \<lparr>prepare_calls = [''select 1''], close_calls = []\<rparr>
       ''select 1'' =
     Some ((Some 1, None),
           \<lparr>lock = unlocked, statements = [(''select 1'', Some 1)], preparer = flaky_preparer\<rparr>,
           \<lparr>prepare_calls = [''select 1'', ''select 1''], close_calls = []\<rparr>)"
  using PrepareContext_failure_is_not_cached
    [of "newStmtCache flaky_preparer" "''select 1''" world0 None "External ''database is locked''"]
  by (simp add: newStmtCache_def flaky_preparer_def world0_def)

text \<open>
  What does hold for a cached key: a call that starts when the key is cached returns
  the cached statement and leaves cache and history untouched, a call for any key keeps
  the entry, and so do callers that all start after the entry is there, however their
  statements interleave.
\<close>

lemma fresh_callers_are_served:
  assumes "map_of (statements c) q = Some s" and "\<not> writer (lock c)"
  shows "PrepareContext c w q = Some ((s, None), c, w) \<and>
         (\<forall>q' r c' w'. PrepareContext c w q' = Some (r, c', w') \<longrightarrow>
            map_of (statements c') q = Some s) \<and>
         (\<forall>qs sched.
            map_of (statements (cache (run sched (start c w qs)))) q = Some s \<and>
            filter ((=) q) (prepare_calls (db (run sched (start c w qs)))) =
              filter ((=) q) (prepare_calls w) \<and>
            (\<forall>t \<in> set (callers (run sched (start c w qs))).
               query t = q \<longrightarrow> (\<forall>s' err. at t = Returned s' err \<longrightarrow> s' = s \<and> err = None)))"
proof (intro conjI allI impI)
  show "PrepareContext c w q = Some ((s, None), c, w)"
    using assms by (simp add: PrepareContext_hit)
next
  fix q' r c' w'
  assume "PrepareContext c w q' = Some (r, c', w')"
  with assms(1) show "map_of (statements c') q = Some s"
    by (rule PrepareContext_keeps)
next
  fix qs sched
  have c: "map_of (statements (cache (start c w qs))) q = Some s"
    using assms(1) by (simp add: start_def)
  note inv = run_cached[OF c start_on_short_path, of sched]
  show "map_of (statements (cache (run sched (start c w qs)))) q = Some s"
    using inv by simp
  show "filter ((=) q) (prepare_calls (db (run sched (start c w qs)))) =
        filter ((=) q) (prepare_calls w)"
    using inv by (simp add: start_def)
  show "\<forall>t \<in> set (callers (run sched (start c w qs))).
          query t = q \<longrightarrow> (\<forall>s' err. at t = Returned s' err \<longrightarrow> s' = s \<and> err = None)"
    using inv by (auto simp: on_short_path_def)
qed

text \<open>
  C4. A cached entry is not safe from a caller that looked the key up before it was
  cached.  Four callers ask for the same key.  The first two both miss; the first one
  prepares statement 0 and stores it, and the third, which starts now, is served
  statement 0 from the cache.  Then the second caller, waiting at \<^verbatim>\<open>Lock\<close> since its miss,
  goes on: it calls the preparer for the key a second time and stores statement 1 over
  statement 0.  The fourth caller is served statement 1.
\<close>

theorem cached_statement_is_overwritten:
  "statements (cache (run [0, 1, 0, 1, 0, 1, 0, 0, 0, 0]
      (start (newStmtCache fresh_preparer) world0 [''q'', ''q'', ''q'', ''q'']))) = [(''q'', Some 0)] \<and>
   map at (callers (run [0, 1, 0, 1, 0, 1, 0, 0, 0, 0, 2, 2, 2]
      (start (newStmtCache fresh_preparer) world0 [''q'', ''q'', ''q'', ''q'']))) =
     [Returned (Some 0) None, AtLock, Returned (Some 0) None, AtRLock] \<and>
   statements (cache (run [0, 1, 0, 1, 0, 1, 0, 0, 0, 0, 2, 2, 2, 1, 1, 1, 1]
      (start (newStmtCache fresh_preparer) world0 [''q'', ''q'', ''q'', ''q'']))) = [(''q'', Some 1)] \<and>
   prepare_calls (db (run [0, 1, 0, 1, 0, 1, 0, 0, 0, 0, 2, 2, 2, 1, 1, 1, 1]
      (start (newStmtCache fresh_preparer) world0 [''q'', ''q'', ''q'', ''q'']))) = [''q'', ''q''] \<and>
   map at (callers (run [0, 1, 0, 1, 0, 1, 0, 0, 0, 0, 2, 2, 2, 1, 1, 1, 1, 3, 3, 3]
      (start (newStmtCache fresh_preparer) world0 [''q'', ''q'', ''q'', ''q'']))) =
     [Returned (Some 0) None, Returned (Some 1) None, Returned (Some 0) None,
      Returned (Some 1) None]"
  by code_simp



text \<open>
  C1. Two callers ask for the same key, which is not cached, and both look it up before
  either takes the exclusive lock.  Each of them then calls the preparer: the history
  holds the key twice, the callers come back with different statements, and the cache
  keeps the second one.  Nothing looks the key up again between \<^verbatim>\<open>Lock\<close> and the call of
  the preparer.
\<close>

theorem two_callers_prepare_twice:
  "prepare_calls (db (run [0, 1, 0, 1, 0, 1, 0, 0, 0, 0, 1, 1, 1, 1]
      (start (newStmtCache fresh_preparer) world0 [''q'', ''q'']))) = [''q'', ''q''] \<and>
   map at (callers (run [0, 1, 0, 1, 0, 1, 0, 0, 0, 0, 1, 1, 1, 1]
      (start (newStmtCache fresh_preparer) world0 [''q'', ''q'']))) =
     [Returned (Some 0) None, Returned (Some 1) None] \<and>
   statements (cache (run [0, 1, 0, 1, 0, 1, 0, 0, 0, 0, 1, 1, 1, 1]
      (start (newStmtCache fresh_preparer) world0 [''q'', ''q'']))) = [(''q'', Some 1)]"
  by code_simp

section \<open>Properties of the HTTP server\<close>

subsection \<open>The middleware chain\<close>

lemma New_trace_server: "New trace_packages [] = Inr trace_server"
  by (simp add: New_def trace_packages_def trace_server_def RegisterService_def mux_Handle_def
      AddMiddleware_def Append_def)

lemma Then_Nil: "Then [] h = h"
  by (simp add: Then_def)

lemma Then_Cons: "Then (m # c) h = m (Then c h)"
  by (simp add: Then_def)

lemma Then_append: "Then (c @ c') h = Then c (Then c' h)"
  by (induction c) (simp_all add: Then_Nil Then_Cons)

lemma served_by_New:
  "Run_Handler (\<lambda>routes. [''mux''])
     (AddMiddleware (around ''M2'') (AddMiddleware (around ''M1'') trace_server)) =
   [''h2c in'', ''gzip in'', ''M1 in'', ''M2 in'', ''mux'', ''M2 out'', ''M1 out'', ''gzip out'', ''h2c out'']"
  by (simp add: Run_Handler_def AddMiddleware_def Append_def Then_def trace_server_def around_def)

text \<open>
  C2. Two middlewares added with \<^verbatim>\<open>AddMiddleware\<close>, \<open>m1\<close> first and \<open>m2\<close> second, end up
  behind the middlewares the server already had, with \<open>m1\<close> around \<open>m2\<close> and \<open>m2\<close> around
  the mux: a request meets the middlewares in the order in which they were added, and
  the one added first is the outermost of the two.
\<close>

theorem first_middleware_is_outermost:
  "Run_Handler mh (AddMiddleware m2 (AddMiddleware m1 s)) = Then (chain s) (m1 (m2 (mh (mux s))))"
  by (simp add: Run_Handler_def AddMiddleware_def Append_def Then_append Then_Cons Then_Nil)

text \<open>
  C2, as the claim has it, fails: with \<open>M1\<close> added first and \<open>M2\<close> second to a server with
  an empty chain, the request meets \<open>M1\<close> before \<open>M2\<close> on the way in and \<open>M2\<close> before
  \<open>M1\<close> on the way out.
\<close>

theorem second_middleware_is_not_outermost:
  "Run_Handler (\<lambda>routes. [''mux''])
     (AddMiddleware (around ''M2'') (AddMiddleware (around ''M1'')
        (trace_server\<lparr>chain := []\<rparr>))) =
   [''M1 in'', ''M2 in'', ''mux'', ''M2 out'', ''M1 out'']"
  by (simp add: Run_Handler_def AddMiddleware_def Append_def Then_def trace_server_def around_def)

subsection \<open>Construction\<close>

lemma apply_rejected:
  "(fst (apply_Option opt c) \<noteq> None) = rejected opt"
  "(fst (apply_serverOptions os c) \<noteq> None) = (\<exists>opt \<in> set os. rejected opt)"
  by (induction opt c and os c rule: apply_Option_apply_serverOptions.induct)
     (auto split: prod.splits option.splits)

lemma apply_errors:
  "fst (apply_Option opt c) = Some err \<Longrightarrow>
     err = NetworkEmpty \<or> err = AddressEmpty \<or> err = UnsupportedNetwork ''udp'' \<or>
     err = UnsupportedNetwork ''unixgram''"
  "fst (apply_serverOptions os c) = Some err \<Longrightarrow>
     err = NetworkEmpty \<or> err = AddressEmpty \<or> err = UnsupportedNetwork ''udp'' \<or>
     err = UnsupportedNetwork ''unixgram''"
  by (induction opt c and os c rule: apply_Option_apply_serverOptions.induct)
     (auto split: prod.splits option.splits if_splits)

lemma New_options_rejects:
  "\<exists>opt \<in> set options. rejected opt \<Longrightarrow>
   \<exists>err. New_options options cfg = Inl (FailedToCreateHTTPServer err) \<and>
         (err = NetworkEmpty \<or> err = AddressEmpty \<or> err = UnsupportedNetwork ''udp'' \<or>
          err = UnsupportedNetwork ''unixgram'')"
proof (induction options arbitrary: cfg)
  case Nil
  then show ?case by simp
next
  case (Cons opt options)
  obtain r cfg' where a: "apply_Option opt cfg = (r, cfg')" by (cases "apply_Option opt cfg")
  show ?case
  proof (cases r)
    case None
    with a apply_rejected(1)[of opt cfg] have "\<not> rejected opt" by simp
    with Cons.prems have "\<exists>opt \<in> set options. rejected opt" by simp
    from Cons.IH[OF this, of cfg'] a None show ?thesis by simp
  next
    case (Some err)
    with a apply_errors(1)[of opt cfg err] show ?thesis by simp
  qed
qed

lemma New_options_accepts:
  "\<not> (\<exists>opt \<in> set options. rejected opt) \<Longrightarrow> \<exists>cfg'. New_options options cfg = Inr cfg'"
proof (induction options arbitrary: cfg)
  case Nil
  then show ?case by simp
next
  case (Cons opt options)
  obtain r cfg' where a: "apply_Option opt cfg = (r, cfg')" by (cases "apply_Option opt cfg")
  from Cons.prems apply_rejected(1)[of opt cfg] a have "r = None" by simp
  with a Cons.IH[of cfg'] Cons.prems show ?case by simp
qed

lemma New_accepts:
  assumes "\<not> (\<exists>opt \<in> set options. rejected opt)"
  shows "if PathPrefix (reflection_NewServer pk) = []
         then New pk options = Inl (Panic ''http: invalid pattern'')
         else \<exists>s. New pk options = Inr s"
proof -
  obtain cfg' where "New_options options \<lparr>network = ''tcp'', address = ''127.0.0.1:0''\<rparr> = Inr cfg'"
    using New_options_accepts[OF assms] by blast
  then show ?thesis
    by (simp add: New_def RegisterService_def mux_Handle_def Let_def)
qed

text \<open>
  C5. When one of the options given to \<^verbatim>\<open>New\<close> holds an address with an empty network,
  with network \<^verbatim>\<open>udp\<close> or \<^verbatim>\<open>unixgram\<close>, or with an empty address, \<^verbatim>\<open>New\<close> returns an error
  and no server; the error wraps one of the three validation errors.  \<^verbatim>\<open>New\<close> never
  listens: \<^verbatim>\<open>net.Listen\<close> is reached through \<^verbatim>\<open>Run\<close> only, which needs a server.
\<close>

theorem New_rejects_bad_address:
  assumes "\<exists>opt \<in> set options. rejected opt"
  shows "\<exists>err. New pk options = Inl (FailedToCreateHTTPServer err) \<and>
           (err = NetworkEmpty \<or> err = AddressEmpty \<or> err = UnsupportedNetwork ''udp'' \<or>
            err = UnsupportedNetwork ''unixgram'')"
  using New_options_rejects[OF assms, of "\<lparr>network = ''tcp'', address = ''127.0.0.1:0''\<rparr>"]
  by (auto simp: New_def)

text \<open>A valid address followed by a configuration with an empty address.\<close>

theorem New_rejects_bad_address_witness:
  "rejected (WithConfig \<lparr>Address = []\<rparr>) \<and>
   New trace_packages [WithServerAddress ''tcp'' ''127.0.0.1:8080'', WithConfig \<lparr>Address = []\<rparr>] =
     Inl (FailedToCreateHTTPServer AddressEmpty)"
proof -
  have h: "\<exists>opt \<in> set [WithServerAddress ''tcp'' ''127.0.0.1:8080'', WithConfig \<lparr>Address = []\<rparr>].
             rejected opt"
    by (simp add: WithConfig_def)
  from New_rejects_bad_address[OF h, of trace_packages]
  show ?thesis by (simp add: WithConfig_def New_def)
qed

subsection \<open>Run\<close>

lemma Wait_shutdown_last: "Wait [r, shutdown_task out] = r"
  by (cases r) (simp_all add: shutdown_task_def)

lemma Wait_shutdown_first: "Wait [shutdown_task out, r] = r"
  by (cases r) (simp_all add: shutdown_task_def)

text \<open>
  C6. When the listener is bound and the context is done, \<^verbatim>\<open>Run\<close> returns, and it returns
  \<^verbatim>\<open>nil\<close> if \<^verbatim>\<open>Serve\<close> came back with \<^verbatim>\<open>http.ErrServerClosed\<close> (or \<^verbatim>\<open>nil\<close>), whatever
  \<^verbatim>\<open>Shutdown\<close> returned and whichever goroutine finished first.  When \<^verbatim>\<open>Run\<close> returns an
  error, either the bind failed and the error wraps it, or it is the error of \<^verbatim>\<open>Serve\<close>
  and not \<^verbatim>\<open>http.ErrServerClosed\<close>.
\<close>

theorem Run_returns_nil_after_shutdown:
  "(net_Listen out (network (config s)) (address (config s)) = Inr l \<and> ctx_done out \<longrightarrow>
      Run out s = (s\<lparr>listener := Some l\<rparr>,
                   Returns (if Serve out = Some ErrServerClosed then None else Serve out))) \<and>
   (snd (Run out s) = Returns (Some err) \<longrightarrow>
      (\<exists>e. net_Listen out (network (config s)) (address (config s)) = Inl e \<and>
           err = FailedToListen (network (config s)) (address (config s)) e) \<or>
      (\<exists>l. net_Listen out (network (config s)) (address (config s)) = Inr l \<and>
           Serve out = Some err \<and> err \<noteq> ErrServerClosed))"
  by (cases "net_Listen out (network (config s)) (address (config s))")
     (auto simp: Run_def Let_def Wait_shutdown_last Wait_shutdown_first serve_task_def
        split: option.splits if_splits)

text \<open>
  A cancelled run whose \<^verbatim>\<open>Shutdown\<close> fails returns \<^verbatim>\<open>nil\<close>; a run whose \<^verbatim>\<open>Serve\<close> fails
  returns that error.
\<close>

theorem Run_returns_nil_after_shutdown_witness:
  "Run cancelled trace_server = (trace_server\<lparr>listener := Some listener_43210\<rparr>, Returns None) \<and>
   snd (Run accept_fails trace_server) = Returns (Some (External ''accept: too many open files'')) \<and>
   Serve accept_fails = Some (External ''accept: too many open files'')"
  using Run_returns_nil_after_shutdown[of cancelled trace_server listener_43210]
    Run_returns_nil_after_shutdown[where out = accept_fails and s = trace_server
      and err = "External ''accept: too many open files''"]
  by (simp add: cancelled_def accept_fails_def Run_def serve_task_def shutdown_task_def)

subsection \<open>WaitForAddress\<close>

lemma WaitForAddress_cases:
  "(case WaitForAddress s evs of
      None \<Rightarrow> \<forall>err. CtxDone err \<notin> set evs
    | Some (Some a, None) \<Rightarrow> \<exists>l. (listener s = Some l \<or> Store l \<in> set evs) \<and> Addr l = a
    | Some (None, Some err) \<Rightarrow> CtxDone err \<in> set evs
    | Some (Some a, Some err) \<Rightarrow> False
    | Some (None, None) \<Rightarrow> False)"
proof (induction s evs rule: WaitForAddress.induct)
  case (1 s)
  then show ?case by simp
next
  case (2 s err evs)
  then show ?case by simp
next
  case (3 s evs)
  then show ?case
    by (cases "listener s") (auto split: option.splits prod.splits)
next
  case (4 s l evs)
  then show ?case
    by (auto split: option.splits prod.splits)
qed

lemma WaitForAddress_cancelled_first:
  "listener s = None \<Longrightarrow>
   WaitForAddress s (replicate n Tick @ CtxDone err # evs) = Some (None, Some err)"
  by (induction n) simp_all

lemma WaitForAddress_published:
  "listener s = None \<Longrightarrow>
   WaitForAddress s (replicate n Tick @ Store l # Tick # evs) = Some (Some (Addr l), None)"
  by (induction n) simp_all

lemma WaitForAddress_still_waiting:
  "listener s = None \<Longrightarrow> WaitForAddress s (replicate n Tick) = None"
  by (induction n) simp_all

lemma WaitForAddress_empty_slot:
  "listener s = None \<Longrightarrow> \<forall>l. Store l \<notin> set evs \<Longrightarrow> WaitForAddress s evs \<noteq> Some (Some a, None)"
  using WaitForAddress_cases[where s = s and evs = evs] by auto

subsection \<open>WaitForAddress on a clock\<close>

lemma ticker_period_ns: "ticker_period = 100000000"
  by (simp add: ticker_period_def Millisecond_def)

lemma WaitForAddress_append:
  "WaitForAddress s (xs @ ys) =
     (case WaitForAddress s xs of
        Some r \<Rightarrow> Some r
      | None \<Rightarrow> WaitForAddress (after_events s xs) ys)"
  by (induction s xs rule: WaitForAddress.induct) (simp_all split: option.splits)

lemma after_events_append:
  "after_events s (xs @ ys) = after_events (after_events s xs) ys"
  by (induction s xs rule: after_events.induct) simp_all

lemma timeline_keeps:
  "WaitForAddress s (timeline tm n) = Some r \<Longrightarrow> WaitForAddress s (timeline tm (n + m)) = Some r"
  by (induction m) (simp_all add: WaitForAddress_append)

lemma timeline_keeps_le:
  "WaitForAddress s (timeline tm n) = Some r \<Longrightarrow> n \<le> m \<Longrightarrow>
   WaitForAddress s (timeline tm m) = Some r"
  using timeline_keeps[of s tm n r "m - n"] by simp

lemma select_event_Tick:
  "\<forall>tc err. done_at tm = Some (tc, err) \<longrightarrow> k * ticker_period < tc \<Longrightarrow> select_event tm k = Tick"
  by (auto simp: select_event_def split: option.splits)

lemma select_event_Done:
  "done_at tm = Some (tc, err) \<Longrightarrow> tc < k * ticker_period \<Longrightarrow> select_event tm k = CtxDone err"
  by (simp add: select_event_def)

lemma listener_first:
  assumes "listener s = None" and "stored_at tm = Some (ts, l)"
    and "\<forall>tc err. done_at tm = Some (tc, err) \<longrightarrow> n * ticker_period < tc"
  shows "(n * ticker_period < ts \<longrightarrow>
            WaitForAddress s (timeline tm n) = None \<and> after_events s (timeline tm n) = s) \<and>
         (1 \<le> n \<and> ts \<le> n * ticker_period \<longrightarrow>
            WaitForAddress s (timeline tm n) = Some (Some (Addr l), None))"
  using assms(3)
proof (induction n)
  case 0
  then show ?case by simp
next
  case (Suc n)
  have nc: "\<forall>tc err. done_at tm = Some (tc, err) \<longrightarrow> n * ticker_period < tc"
    using Suc.prems by (auto simp: ticker_period_ns)
  note IH = Suc.IH[OF nc]
  have sel: "select_event tm (Suc n) = Tick"
    using Suc.prems by (rule select_event_Tick)
  show ?case
  proof (cases "Suc n * ticker_period < ts")
    case True
    then have "n * ticker_period < ts" by simp
    with IH have q: "WaitForAddress s (timeline tm n) = None" "after_events s (timeline tm n) = s"
      by simp_all
    have "period_stores tm (Suc n) = []"
      using True assms(2) by (simp add: period_stores_def)
    with q sel assms(1) True show ?thesis
      by (simp add: WaitForAddress_append after_events_append)
  next
    case False
    then have le: "ts \<le> Suc n * ticker_period" by simp
    show ?thesis
    proof (cases "n = 0 \<or> n * ticker_period < ts")
      case True
      then have q: "WaitForAddress s (timeline tm n) = None" "after_events s (timeline tm n) = s"
        using IH by auto
      have "period_stores tm (Suc n) = [Store l]"
        using True le assms(2) by (auto simp: period_stores_def)
      with q sel le show ?thesis
        by (simp add: WaitForAddress_append)
    next
      case False
      then have "1 \<le> n" "ts \<le> n * ticker_period" by simp_all
      with IH have "WaitForAddress s (timeline tm n) = Some (Some (Addr l), None)" by simp
      with le show ?thesis
        by (simp add: WaitForAddress_append)
    qed
  qed
qed

lemma cancelled_first:
  assumes "listener s = None" and "done_at tm = Some (tc, err)"
    and "\<forall>ts l. stored_at tm = Some (ts, l) \<longrightarrow> tc < ts"
  shows "(n * ticker_period \<le> tc \<longrightarrow>
            (WaitForAddress s (timeline tm n) = None \<and> after_events s (timeline tm n) = s) \<or>
            WaitForAddress s (timeline tm n) = Some (None, Some err)) \<and>
         (n * ticker_period < tc \<longrightarrow> WaitForAddress s (timeline tm n) = None) \<and>
         (tc < n * ticker_period \<longrightarrow> WaitForAddress s (timeline tm n) = Some (None, Some err))"
proof (induction n)
  case 0
  then show ?case by simp
next
  case (Suc n)
  have stores: "period_stores tm (Suc n) = [] \<or> (\<exists>l. period_stores tm (Suc n) = [Store l])"
    by (simp add: period_stores_def split: option.splits)
  have sel: "select_event tm (Suc n) = Tick \<or> select_event tm (Suc n) = CtxDone err"
    using assms(2) by (simp add: select_event_def)
  show ?case
  proof (cases "WaitForAddress s (timeline tm n)")
    case (Some r)
    with Suc.IH have r: "r = (None, Some err)" "tc \<le> n * ticker_period"
      by (auto simp: not_less[symmetric])
    then have "WaitForAddress s (timeline tm (Suc n)) = Some (None, Some err)"
      using Some by (simp add: WaitForAddress_append)
    moreover have "\<not> Suc n * ticker_period < tc"
      using r(2) by simp
    ultimately show ?thesis by simp
  next
    case None
    with Suc.IH have q: "n * ticker_period \<le> tc" "after_events s (timeline tm n) = s"
      by (auto simp: not_less[symmetric])
    show ?thesis
    proof (cases "tc < Suc n * ticker_period")
      case True
      then have "select_event tm (Suc n) = CtxDone err"
        using assms(2) by (rule select_event_Done[rotated])
      with None q stores True show ?thesis
        by (auto simp: WaitForAddress_append)
    next
      case False
      then have le: "Suc n * ticker_period \<le> tc" by simp
      have "period_stores tm (Suc n) = []"
        using le assms(3) by (auto simp: period_stores_def split: option.splits)
      moreover have "Suc n * ticker_period < tc \<longrightarrow> select_event tm (Suc n) = Tick"
        using assms(2) by (simp add: select_event_def)
      ultimately show ?thesis
        using None q sel le assms(1)
        by (auto simp: WaitForAddress_append after_events_append)
    qed
  qed
qed

lemma WaitForAddress_cases':
  "WaitForAddress s evs = None \<Longrightarrow> CtxDone err \<notin> set evs"
  using WaitForAddress_cases[where s = s and evs = evs] by auto

lemma returns_once_done:
  assumes "done_at tm = Some (tc, err)" and "tc < n * ticker_period"
  shows "WaitForAddress s (timeline tm n) \<noteq> None"
proof (cases n)
  case 0
  with assms(2) show ?thesis by simp
next
  case (Suc m)
  have "select_event tm (Suc m) = CtxDone err"
    using assms Suc by (simp add: select_event_Done)
  then have "CtxDone err \<in> set (timeline tm n)"
    using Suc by simp
  then show ?thesis
    using WaitForAddress_cases'[of s "timeline tm n" err] by blast
qed

lemma done_before_call:
  assumes "done_at tm = Some (0, err)" and "1 \<le> n"
  shows "WaitForAddress s (timeline tm n) = Some (None, Some err)"
proof -
  have sel: "select_event tm (Suc 0) = CtxDone err"
    using assms(1) by (simp add: select_event_def ticker_period_ns)
  have "period_stores tm (Suc 0) = [] \<or> (\<exists>l. period_stores tm (Suc 0) = [Store l])"
    by (simp add: period_stores_def split: option.splits)
  with sel have "WaitForAddress s (timeline tm (Suc 0)) = Some (None, Some err)"
    by auto
  then show ?thesis
    using assms(2) timeline_keeps_le[of s tm "Suc 0" _ n] by simp
qed

lemma slot_full:
  assumes "listener s = Some l" and "stored_at tm = None"
    and "\<forall>tc err. done_at tm = Some (tc, err) \<longrightarrow> ticker_period < tc" and "1 \<le> n"
  shows "WaitForAddress s (timeline tm n) = Some (Some (Addr l), None)"
proof -
  have "select_event tm (Suc 0) = Tick"
    using assms(3) by (intro select_event_Tick) simp
  then have "WaitForAddress s (timeline tm (Suc 0)) = Some (Some (Addr l), None)"
    using assms(1,2) by (simp add: period_stores_def)
  then show ?thesis
    using assms(4) timeline_keeps_le[of s tm "Suc 0" _ n] by simp
qed

text \<open>
  C8. \<^verbatim>\<open>WaitForAddress\<close> has two ways to return and no third: the address of a listener
  that is in the slot (there from the start, or stored while it was waiting) with no
  error, or the error of the context with no address, and the latter only when the
  context was done; as long as it is waiting the context has not been done.  On the
  clock, with ticks every 100ms (times in nanoseconds):
  once the context is done, \<^verbatim>\<open>WaitForAddress\<close> has returned by the next tick, whatever the
  slot holds, and with the context done at the call it returns the error of the context;
  with an empty slot and the context done at \<open>tc\<close>, before any listener is stored, it
  is waiting at every tick before \<open>tc\<close> and has returned the error of the context at
  every tick after \<open>tc\<close>;
  with an empty slot and a listener stored at \<open>ts\<close>, it is waiting at every tick before
  \<open>ts\<close> and has returned the address of this listener from the first tick at or after
  \<open>ts\<close> on, if the context is not done by then;
  with a listener in the slot at the call it waits for the first tick and returns the
  address then.
\<close>

theorem WaitForAddress_polls_every_100ms:
  "(case WaitForAddress s evs of
      None \<Rightarrow> \<forall>err. CtxDone err \<notin> set evs
    | Some (Some a, None) \<Rightarrow> \<exists>l. (listener s = Some l \<or> Store l \<in> set evs) \<and> Addr l = a
    | Some (None, Some err) \<Rightarrow> CtxDone err \<in> set evs
    | Some (Some a, Some err) \<Rightarrow> False
    | Some (None, None) \<Rightarrow> False) \<and>
   (done_at tm = Some (tc, err) \<and> tc < n * 100000000 \<longrightarrow>
      WaitForAddress s (timeline tm n) \<noteq> None) \<and>
   (done_at tm = Some (0, err) \<and> 1 \<le> n \<longrightarrow>
      WaitForAddress s (timeline tm n) = Some (None, Some err)) \<and>
   (listener s = None \<and> done_at tm = Some (tc, err) \<and>
    (\<forall>ts l. stored_at tm = Some (ts, l) \<longrightarrow> tc < ts) \<longrightarrow>
      (n * 100000000 < tc \<longrightarrow> WaitForAddress s (timeline tm n) = None) \<and>
      (tc < n * 100000000 \<longrightarrow> WaitForAddress s (timeline tm n) = Some (None, Some err))) \<and>
   (listener s = None \<and> stored_at tm = Some (ts, l) \<and>
    (\<forall>tc err. done_at tm = Some (tc, err) \<longrightarrow> k * 100000000 < tc) \<longrightarrow>
      (k * 100000000 < ts \<longrightarrow> WaitForAddress s (timeline tm k) = None) \<and>
      (1 \<le> k \<and> ts \<le> k * 100000000 \<and> k \<le> n \<longrightarrow>
         WaitForAddress s (timeline tm n) = Some (Some (Addr l), None))) \<and>
   (listener s = Some l \<and> stored_at tm = None \<and>
    (\<forall>tc err. done_at tm = Some (tc, err) \<longrightarrow> 100000000 < tc) \<longrightarrow>
      WaitForAddress s (timeline tm 0) = None \<and>
      (1 \<le> n \<longrightarrow> WaitForAddress s (timeline tm n) = Some (Some (Addr l), None)))"
proof (intro conjI impI; (elim conjE)?)
  show "case WaitForAddress s evs of
      None \<Rightarrow> \<forall>err. CtxDone err \<notin> set evs
    | Some (Some a, None) \<Rightarrow> \<exists>l. (listener s = Some l \<or> Store l \<in> set evs) \<and> Addr l = a
    | Some (None, Some err) \<Rightarrow> CtxDone err \<in> set evs
    | Some (Some a, Some err) \<Rightarrow> False
    | Some (None, None) \<Rightarrow> False"
    by (rule WaitForAddress_cases)
next
  assume "done_at tm = Some (tc, err)" "tc < n * 100000000"
  then show "WaitForAddress s (timeline tm n) \<noteq> None"
    using returns_once_done[of tm tc err n s] by (simp add: ticker_period_ns)
next
  assume "done_at tm = Some (0, err)" "1 \<le> n"
  then show "WaitForAddress s (timeline tm n) = Some (None, Some err)"
    by (rule done_before_call)
next
  assume a: "listener s = None" "done_at tm = Some (tc, err)"
    "\<forall>ts l. stored_at tm = Some (ts, l) \<longrightarrow> tc < ts"
  note c = cancelled_first[OF a, of n, unfolded ticker_period_ns]
  { assume "n * 100000000 < tc"
    with c show "WaitForAddress s (timeline tm n) = None" by blast }
  { assume "tc < n * 100000000"
    with c show "WaitForAddress s (timeline tm n) = Some (None, Some err)" by blast }
next
  assume a: "listener s = None" "stored_at tm = Some (ts, l)"
    "\<forall>tc err. done_at tm = Some (tc, err) \<longrightarrow> k * 100000000 < tc"
  have a3: "\<forall>tc err. done_at tm = Some (tc, err) \<longrightarrow> k * ticker_period < tc"
    using a(3) by (simp add: ticker_period_ns)
  note c = listener_first[OF a(1,2) a3, unfolded ticker_period_ns]
  { assume "k * 100000000 < ts"
    with c show "WaitForAddress s (timeline tm k) = None" by blast }
  { assume "1 \<le> k" "ts \<le> k * 100000000" "k \<le> n"
    with c have "WaitForAddress s (timeline tm k) = Some (Some (Addr l), None)" by blast
    then show "WaitForAddress s (timeline tm n) = Some (Some (Addr l), None)"
      using \<open>k \<le> n\<close> by (rule timeline_keeps_le) }
next
  assume a: "listener s = Some l" "stored_at tm = None"
    "\<forall>tc err. done_at tm = Some (tc, err) \<longrightarrow> 100000000 < tc"
  show "WaitForAddress s (timeline tm 0) = None" by simp
  { assume "1 \<le> n"
    with a show "WaitForAddress s (timeline tm n) = Some (Some (Addr l), None)"
      using slot_full[of s l tm n] by (simp add: ticker_period_ns) }
qed

text \<open>
  A listener stored after 250ms is not seen at 200ms and is returned at 300ms; a
  cancellation after 250ms has ended the wait by 300ms.
\<close>

theorem WaitForAddress_polls_every_100ms_witness:
  "WaitForAddress trace_server (timeline stored_after_250ms 2) = None \<and>
   WaitForAddress trace_server (timeline stored_after_250ms 3) =
     Some (Some \<lparr>Network = ''tcp'', String = ''127.0.0.1:43210''\<rparr>, None) \<and>
   WaitForAddress trace_server (timeline stored_after_250ms 7) =
     Some (Some \<lparr>Network = ''tcp'', String = ''127.0.0.1:43210''\<rparr>, None) \<and>
   WaitForAddress trace_server (timeline cancelled_after_250ms 2) = None \<and>
   WaitForAddress trace_server (timeline cancelled_after_250ms 3) = Some (None, Some ContextCanceled) \<and>
   listener trace_server = None"
proof -
  have s: "listener trace_server = None" by (simp add: trace_server_def)
  have t1: "done_at stored_after_250ms = None"
    "stored_at stored_after_250ms = Some (250000000, listener_43210)"
    and t2: "done_at cancelled_after_250ms = Some (250000000, ContextCanceled)"
    "stored_at cancelled_after_250ms = None"
    by (simp_all add: stored_after_250ms_def cancelled_after_250ms_def)
  have a: "Addr listener_43210 = \<lparr>Network = ''tcp'', String = ''127.0.0.1:43210''\<rparr>"
    by (simp add: listener_43210_def)
  from WaitForAddress_polls_every_100ms[where s = trace_server and tm = stored_after_250ms
      and k = 2 and ts = 250000000 and l = listener_43210] s t1
  have 1: "WaitForAddress trace_server (timeline stored_after_250ms 2) = None" by simp
  from WaitForAddress_polls_every_100ms[where s = trace_server and tm = stored_after_250ms
      and k = 3 and n = 3 and ts = 250000000 and l = listener_43210] s t1 a
  have 2: "WaitForAddress trace_server (timeline stored_after_250ms 3) =
     Some (Some \<lparr>Network = ''tcp'', String = ''127.0.0.1:43210''\<rparr>, None)" by simp
  from WaitForAddress_polls_every_100ms[where s = trace_server and tm = stored_after_250ms
      and k = 3 and n = 7 and ts = 250000000 and l = listener_43210] s t1 a
  have 3: "WaitForAddress trace_server (timeline stored_after_250ms 7) =
     Some (Some \<lparr>Network = ''tcp'', String = ''127.0.0.1:43210''\<rparr>, None)" by simp
  from WaitForAddress_polls_every_100ms[where s = trace_server and tm = cancelled_after_250ms
      and n = 2 and tc = 250000000 and err = ContextCanceled] s t2
  have 4: "WaitForAddress trace_server (timeline cancelled_after_250ms 2) = None" by simp
  from WaitForAddress_polls_every_100ms[where s = trace_server and tm = cancelled_after_250ms
      and n = 3 and tc = 250000000 and err = ContextCanceled] s t2
  have 5: "WaitForAddress trace_server (timeline cancelled_after_250ms 3) =
     Some (None, Some ContextCanceled)" by simp
  from 1 2 3 4 5 s show ?thesis by simp
qed

subsection \<open>A failed bind\<close>

text \<open>
  C10. When \<^verbatim>\<open>net.Listen\<close> fails, \<^verbatim>\<open>Run\<close> returns the error wrapped with network and
  address and leaves the server as it was.  If the slot was empty it still is, and a
  \<^verbatim>\<open>WaitForAddress\<close> on this server returns no address, however long it waits, unless
  somebody else stores a listener.
\<close>

theorem failed_bind_publishes_nothing:
  assumes "net_Listen out (network (config s)) (address (config s)) = Inl e"
  shows "Run out s = (s, Returns (Some (FailedToListen (network (config s)) (address (config s)) e))) \<and>
         (listener s = None \<longrightarrow>
            (\<forall>evs a. (\<forall>l. Store l \<notin> set evs) \<longrightarrow>
               WaitForAddress (fst (Run out s)) evs \<noteq> Some (Some a, None)))"
  using assms by (simp add: Run_def WaitForAddress_empty_slot)

text \<open>The port is taken: \<^verbatim>\<open>Run\<close> fails, and waiting ends with the deadline only.\<close>

theorem failed_bind_publishes_nothing_witness:
  "Run port_taken trace_server =
     (trace_server,
      Returns (Some (FailedToListen ''tcp'' ''127.0.0.1:0'' (External ''bind: address already in use'')))) \<and>
   listener trace_server = None \<and>
   WaitForAddress (fst (Run port_taken trace_server)) [Tick, Tick, Tick] = None \<and>
   WaitForAddress (fst (Run port_taken trace_server)) [Tick, CtxDone DeadlineExceeded] =
     Some (None, Some DeadlineExceeded)"
proof -
  have h: "net_Listen port_taken (network (config trace_server)) (address (config trace_server)) =
             Inl (External ''bind: address already in use'')"
    by (simp add: port_taken_def)
  have c: "network (config trace_server) = ''tcp''" "address (config trace_server) = ''127.0.0.1:0''"
    "listener trace_server = None"
    by (simp_all add: trace_server_def)
  from failed_bind_publishes_nothing[OF h] c
  have r: "Run port_taken trace_server =
     (trace_server,
      Returns (Some (FailedToListen ''tcp'' ''127.0.0.1:0'' (External ''bind: address already in use''))))"
    by simp
  show ?thesis using r c by simp
qed

subsection \<open>Registering handlers and services\<close>

lemma mux_Handle_panics:
  "isl (mux_Handle pattern handler m) = (pattern = [] \<or> handler = None \<or> pattern \<in> fst ` set m)"
  by (simp add: mux_Handle_def split: option.splits)

lemma mux_Handle_adds:
  "mux_Handle pattern handler m = Inr m' \<Longrightarrow> \<exists>h. handler = Some h \<and> m' = m @ [(pattern, h)]"
  by (auto simp: mux_Handle_def split: option.splits if_splits)

lemma Handle_panics:
  "(fst (Handle pattern handler s) \<noteq> None) =
     (pattern = [] \<or> handler = None \<or> pattern \<in> fst ` set (mux s))"
  using mux_Handle_panics[of pattern handler "mux s"]
  by (cases "mux_Handle pattern handler (mux s)") (simp_all add: Handle_def)

lemma Handle_panic_unchanged:
  "fst (Handle pattern handler s) \<noteq> None \<Longrightarrow> snd (Handle pattern handler s) = s"
  by (cases "mux_Handle pattern handler (mux s)") (simp_all add: Handle_def)

lemma Handle_adds:
  "fst (Handle pattern handler s) = None \<Longrightarrow>
   \<exists>h. handler = Some h \<and> snd (Handle pattern handler s) = s\<lparr>mux := mux s @ [(pattern, h)]\<rparr>"
  by (cases "mux_Handle pattern handler (mux s)") (auto simp: Handle_def dest: mux_Handle_adds)

lemma Handle_reflection: "reflection (snd (Handle pattern handler s)) = reflection s"
  by (cases "mux_Handle pattern handler (mux s)") (simp_all add: Handle_def)

lemma RegisterService_panics:
  "(fst (RegisterService t s) \<noteq> None) =
     (case t of None \<Rightarrow> True
      | Some ts \<Rightarrow> PathPrefix ts = [] \<or> PathPrefix ts \<in> fst ` set (mux s))"
proof (cases t)
  case None
  then show ?thesis by (simp add: RegisterService_def)
next
  case (Some ts)
  then show ?thesis
    using mux_Handle_panics[of "PathPrefix ts" "Some (ServeHTTP ts)" "mux s"]
    by (cases "mux_Handle (PathPrefix ts) (Some (ServeHTTP ts)) (mux s)")
       (simp_all add: RegisterService_def)
qed

lemma RegisterService_panic_unchanged:
  "fst (RegisterService t s) \<noteq> None \<Longrightarrow> snd (RegisterService t s) = s"
  by (auto simp: RegisterService_def split: option.splits sum.splits)

lemma RegisterService_adds:
  "fst (RegisterService t s) = None \<Longrightarrow>
   \<exists>ts. t = Some ts \<and>
     snd (RegisterService t s) =
       s\<lparr>mux := mux s @ [(PathPrefix ts, ServeHTTP ts)],
         reflection := (reflection s)\<lparr>registered := registered (reflection s) @ [ts]\<rparr>\<rparr>"
  by (auto simp: RegisterService_def split: option.splits sum.splits dest: mux_Handle_adds)

lemma reachable_registered_routed:
  "reachable pk s \<Longrightarrow>
   (\<forall>t \<in> set (registered (reflection s)). (PathPrefix t, ServeHTTP t) \<in> set (mux s)) \<and>
   distinct (map fst (mux s)) \<and> [] \<notin> fst ` set (mux s)"
proof (induction rule: reachable.induct)
  case (reach_New options s)
  then show ?case
    by (auto simp: New_def RegisterService_def mux_Handle_def AddMiddleware_def Let_def
        split: sum.splits if_splits)
next
  case (reach_Handle s pattern handler)
  show ?case
  proof (cases "fst (Handle pattern handler s)")
    case None
    from Handle_adds[OF None] obtain h where
      h: "snd (Handle pattern handler s) = s\<lparr>mux := mux s @ [(pattern, h)]\<rparr>" "handler = Some h"
      by blast
    from None Handle_panics[of pattern handler s]
    have "pattern \<noteq> []" "pattern \<notin> fst ` set (mux s)" by auto
    with reach_Handle.IH h show ?thesis by auto
  next
    case (Some p)
    then have "snd (Handle pattern handler s) = s"
      by (simp add: Handle_panic_unchanged)
    with reach_Handle.IH show ?thesis by simp
  qed
next
  case (reach_RegisterService s t)
  show ?case
  proof (cases "fst (RegisterService t s)")
    case None
    from RegisterService_adds[OF None] obtain ts where
      ts: "t = Some ts"
        "snd (RegisterService t s) =
           s\<lparr>mux := mux s @ [(PathPrefix ts, ServeHTTP ts)],
             reflection := (reflection s)\<lparr>registered := registered (reflection s) @ [ts]\<rparr>\<rparr>"
      by blast
    from None RegisterService_panics[of t s] ts(1)
    have "PathPrefix ts \<noteq> []" "PathPrefix ts \<notin> fst ` set (mux s)" by auto
    with reach_RegisterService.IH ts show ?thesis by auto
  next
    case (Some p)
    then have "snd (RegisterService t s) = s"
      by (simp add: RegisterService_panic_unchanged)
    with reach_RegisterService.IH show ?thesis by simp
  qed
next
  case (reach_AddMiddleware s middleware)
  then show ?case by (simp add: AddMiddleware_def)
qed

text \<open>
  C9. A call of \<^verbatim>\<open>RegisterService\<close> that does not panic was given a service whose path
  prefix is not empty and not in the mux yet; it adds the service to the mux under its
  path prefix and tells the reflection server of it.  A call that panics (a \<^verbatim>\<open>nil\<close>
  service, an empty prefix, a prefix that is registered already) leaves the server as
  it was: no route, and the reflection server is not told.  \<^verbatim>\<open>Handle\<close> adds the handler
  to the mux under the same conditions and never tells the reflection server.  So, for
  every server that \<^verbatim>\<open>New\<close>, \<^verbatim>\<open>Handle\<close>, \<^verbatim>\<open>RegisterService\<close> and \<^verbatim>\<open>AddMiddleware\<close> can
  produce, every service the reflection server knows is in the mux under its path
  prefix.
\<close>

theorem registration_effects:
  "(fst (RegisterService t s) = None \<longrightarrow>
      (\<exists>ts. t = Some ts \<and> PathPrefix ts \<noteq> [] \<and> PathPrefix ts \<notin> fst ` set (mux s) \<and>
         mux (snd (RegisterService t s)) = mux s @ [(PathPrefix ts, ServeHTTP ts)] \<and>
         registered (reflection (snd (RegisterService t s))) = registered (reflection s) @ [ts])) \<and>
   (fst (RegisterService t s) \<noteq> None \<longrightarrow>
      snd (RegisterService t s) = s \<and>
      (case t of None \<Rightarrow> True
       | Some ts \<Rightarrow> PathPrefix ts = [] \<or> PathPrefix ts \<in> fst ` set (mux s))) \<and>
   (fst (Handle pattern handler s) = None \<longrightarrow>
      (\<exists>h. handler = Some h \<and> pattern \<noteq> [] \<and> pattern \<notin> fst ` set (mux s) \<and>
         mux (snd (Handle pattern handler s)) = mux s @ [(pattern, h)])) \<and>
   (fst (Handle pattern handler s) \<noteq> None \<longrightarrow>
      snd (Handle pattern handler s) = s \<and>
      (pattern = [] \<or> handler = None \<or> pattern \<in> fst ` set (mux s))) \<and>
   reflection (snd (Handle pattern handler s)) = reflection s \<and>
   (reachable pk s \<longrightarrow>
      (\<forall>t \<in> set (registered (reflection s)). (PathPrefix t, ServeHTTP t) \<in> set (mux s)))"
proof (intro conjI impI)
  assume ok: "fst (RegisterService t s) = None"
  from RegisterService_adds[OF ok] obtain ts where
    ts: "t = Some ts"
      "snd (RegisterService t s) =
         s\<lparr>mux := mux s @ [(PathPrefix ts, ServeHTTP ts)],
           reflection := (reflection s)\<lparr>registered := registered (reflection s) @ [ts]\<rparr>\<rparr>"
    by blast
  from ok RegisterService_panics[of t s] ts(1)
  have "PathPrefix ts \<noteq> []" "PathPrefix ts \<notin> fst ` set (mux s)" by auto
  with ts show "\<exists>ts. t = Some ts \<and> PathPrefix ts \<noteq> [] \<and> PathPrefix ts \<notin> fst ` set (mux s) \<and>
         mux (snd (RegisterService t s)) = mux s @ [(PathPrefix ts, ServeHTTP ts)] \<and>
         registered (reflection (snd (RegisterService t s))) = registered (reflection s) @ [ts]"
    by simp
next
  assume "fst (RegisterService t s) \<noteq> None"
  then show "snd (RegisterService t s) = s"
    by (rule RegisterService_panic_unchanged)
next
  assume "fst (RegisterService t s) \<noteq> None"
  then show "case t of None \<Rightarrow> True
       | Some ts \<Rightarrow> PathPrefix ts = [] \<or> PathPrefix ts \<in> fst ` set (mux s)"
    using RegisterService_panics[of t s] by blast
next
  assume ok: "fst (Handle pattern handler s) = None"
  from Handle_adds[OF ok] obtain h where
    h: "handler = Some h" "snd (Handle pattern handler s) = s\<lparr>mux := mux s @ [(pattern, h)]\<rparr>"
    by blast
  from ok Handle_panics[of pattern handler s]
  have "pattern \<noteq> []" "pattern \<notin> fst ` set (mux s)" by auto
  with h show "\<exists>h. handler = Some h \<and> pattern \<noteq> [] \<and> pattern \<notin> fst ` set (mux s) \<and>
         mux (snd (Handle pattern handler s)) = mux s @ [(pattern, h)]"
    by simp
next
  assume "fst (Handle pattern handler s) \<noteq> None"
  then show "snd (Handle pattern handler s) = s"
    by (rule Handle_panic_unchanged)
next
  assume "fst (Handle pattern handler s) \<noteq> None"
  then show "pattern = [] \<or> handler = None \<or> pattern \<in> fst ` set (mux s)"
    using Handle_panics[of pattern handler s] by blast
next
  show "reflection (snd (Handle pattern handler s)) = reflection s"
    by (rule Handle_reflection)
next
  assume "reachable pk s"
  then show "\<forall>t \<in> set (registered (reflection s)). (PathPrefix t, ServeHTTP t) \<in> set (mux s)"
    using reachable_registered_routed by blast
qed

text \<open>
  A server from \<^verbatim>\<open>New\<close>: a health check through \<^verbatim>\<open>Handle\<close>, a second handler under the
  prefix of the reflection server, a new service, and a service under a prefix that is
  taken.
\<close>

theorem registration_effects_witness:
  "reachable trace_packages (snd (Handle ''/healthz'' (Some [''ok'']) trace_server)) \<and>
   Handle ''/healthz'' (Some [''ok'']) trace_server =
     (None, trace_server\<lparr>mux := [(''/twirp/reflection/'', [''reflection'']), (''/healthz'', [''ok''])]\<rparr>) \<and>
   Handle ''/twirp/reflection/'' (Some [''reflection'']) trace_server =
     (Some (Panic ''http: multiple registrations for /twirp/reflection/''), trace_server) \<and>
   RegisterService (Some \<lparr>PathPrefix = ''/twirp/todo/'', ServeHTTP = [''todo'']\<rparr>) trace_server =
     (None,
      trace_server\<lparr>mux := [(''/twirp/reflection/'', [''reflection'']), (''/twirp/todo/'', [''todo''])],
        reflection := (reflection trace_server)\<lparr>registered :=
          [\<lparr>PathPrefix = ''/twirp/reflection/'', ServeHTTP = [''reflection'']\<rparr>,
           \<lparr>PathPrefix = ''/twirp/todo/'', ServeHTTP = [''todo'']\<rparr>]\<rparr>\<rparr>) \<and>
   RegisterService (Some \<lparr>PathPrefix = ''/twirp/reflection/'', ServeHTTP = [''again'']\<rparr>) trace_server =
     (Some (Panic ''http: multiple registrations for /twirp/reflection/''), trace_server) \<and>
   (\<lparr>PathPrefix = ''/twirp/reflection/'', ServeHTTP = [''reflection'']\<rparr>
      \<in> set (registered (reflection trace_server))) \<and>
   ((''/twirp/reflection/'', [''reflection'']) \<in> set (mux trace_server))"
proof -
  have r: "reachable trace_packages trace_server"
    by (rule reach_New[of _ "[]"]) (rule New_trace_server)
  then have r': "reachable trace_packages (snd (Handle ''/healthz'' (Some [''ok'']) trace_server))"
    by (rule reach_Handle)
  have e: "Handle ''/healthz'' (Some [''ok'']) trace_server =
     (None, trace_server\<lparr>mux := [(''/twirp/reflection/'', [''reflection'']), (''/healthz'', [''ok''])]\<rparr>)"
    "Handle ''/twirp/reflection/'' (Some [''reflection'']) trace_server =
     (Some (Panic ''http: multiple registrations for /twirp/reflection/''), trace_server)"
    "RegisterService (Some \<lparr>PathPrefix = ''/twirp/todo/'', ServeHTTP = [''todo'']\<rparr>) trace_server =
     (None,
      trace_server\<lparr>mux := [(''/twirp/reflection/'', [''reflection'']), (''/twirp/todo/'', [''todo''])],
        reflection := (reflection trace_server)\<lparr>registered :=
          [\<lparr>PathPrefix = ''/twirp/reflection/'', ServeHTTP = [''reflection'']\<rparr>,
           \<lparr>PathPrefix = ''/twirp/todo/'', ServeHTTP = [''todo'']\<rparr>]\<rparr>\<rparr>)"
    "RegisterService (Some \<lparr>PathPrefix = ''/twirp/reflection/'', ServeHTTP = [''again'']\<rparr>) trace_server =
     (Some (Panic ''http: multiple registrations for /twirp/reflection/''), trace_server)"
    by (simp_all add: Handle_def RegisterService_def mux_Handle_def trace_server_def)
  have m: "\<lparr>PathPrefix = ''/twirp/reflection/'', ServeHTTP = [''reflection'']\<rparr>
      \<in> set (registered (reflection trace_server))"
    by (simp add: trace_server_def)
  from registration_effects[where s = trace_server and pk = trace_packages
      and t = "Some \<lparr>PathPrefix = ''/twirp/todo/'', ServeHTTP = [''todo'']\<rparr>"
      and pattern = "''/healthz''" and handler = "Some [''ok'']"] r m
  have "(''/twirp/reflection/'', [''reflection'']) \<in> set (mux trace_server)"
    by fastforce
  with r' e m show ?thesis by simp
qed

text \<open>
  C9, as the claim has it, fails for \<^verbatim>\<open>Handle\<close>: the call goes through, and afterwards the
  mux has a pattern that the reflection server has not been told of.
\<close>

theorem Handle_does_not_inform_reflection:
  "fst (Handle ''/healthz'' (Some [''ok'']) trace_server) = None \<and>
   map fst (mux (snd (Handle ''/healthz'' (Some [''ok'']) trace_server))) =
     [''/twirp/reflection/'', ''/healthz''] \<and>
   map PathPrefix (registered (reflection (snd (Handle ''/healthz'' (Some [''ok'']) trace_server)))) =
     [''/twirp/reflection/'']"
  by (simp add: Handle_def mux_Handle_def trace_server_def)

end
